theory Spec2Isabelle
  imports Complex_Main
begin

section \<open>duim.py: disk usage report with bar graphs\<close>

text \<open>
  A shallow embedding of \<^verbatim>\<open>duim.py\<close>. Python's unbounded integers are \<open>int\<close>.
  A Python float is an IEEE 754 binary64 number (type \<open>float\<close> below): every conversion,
  multiplication and division rounds its exact result to the nearest double, a tie going to
  the even significand, with gradual underflow, signed zeros, infinities and NaN. Strings
  are \<open>string\<close>, one \<open>char\<close> per code point below 256; the memory a string needs is
  not modelled. An exception is a value of type \<open>error\<close>, returned as \<open>Inl\<close>. The
  source's variable \<^verbatim>\<open>size\<close> is written \<open>sz\<close>.
\<close>

subsection \<open>Exceptions\<close>

datatype error =
  ValueError | ZeroDivisionError | OverflowError | IndexError | KeyError | OSError | SystemExit int

subsection \<open>Python builtins used by the program\<close>

text \<open>
  The integer nearest to a rational number, a tie going to the even one: what
  \<^verbatim>\<open>round(x)\<close> gives for a finite float of that value.
\<close>

definition py_round :: "rat \<Rightarrow> int" where
  "py_round x =
     (let f = \<lfloor>x\<rfloor>; d = x - of_int f
      in if d < 1 / 2 then f else if 1 / 2 < d then f + 1 else if even f then f else f + 1)"

subsection \<open>Floats\<close>

text \<open>
  A float is a finite double, given by its value, or minus zero, an infinity or NaN;
  \<open>Finite 0\<close> is plus zero.
\<close>

datatype float = Finite rat | NegZero | PosInf | NegInf | NaN

fun signbit :: "float \<Rightarrow> bool" where
  "signbit (Finite v) = (v < 0)"
| "signbit NegZero = True"
| "signbit PosInf = False"
| "signbit NegInf = True"
| "signbit NaN = False"

fun is_zero :: "float \<Rightarrow> bool" where
  "is_zero (Finite v) = (v = 0)"
| "is_zero NegZero = True"
| "is_zero _ = False"

fun is_inf :: "float \<Rightarrow> bool" where
  "is_inf PosInf = True"
| "is_inf NegInf = True"
| "is_inf _ = False"

fun is_nan :: "float \<Rightarrow> bool" where
  "is_nan NaN = True"
| "is_nan _ = False"

fun value_of :: "float \<Rightarrow> rat" where
  "value_of (Finite v) = v"
| "value_of _ = 0"

definition signed_zero :: "bool \<Rightarrow> float" where
  "signed_zero neg = (if neg then NegZero else Finite 0)"

definition signed_inf :: "bool \<Rightarrow> float" where
  "signed_inf neg = (if neg then NegInf else PosInf)"

text \<open>
  \<^verbatim>\<open>n.bit_length()\<close>, and with it the binary exponent of a positive rational \<open>x\<close>: the
  integer \<open>e\<close> with \<open>2 ^ e \<le> x < 2 ^ (e + 1)\<close>.
\<close>

fun bit_length :: "nat \<Rightarrow> nat" where
  "bit_length n = (if n = 0 then 0 else Suc (bit_length (n div 2)))"

definition ilog2 :: "rat \<Rightarrow> int" where
  "ilog2 x =
     (case quotient_of x of (a, b) \<Rightarrow>
        let k = int (bit_length (nat a)) - int (bit_length (nat b))
        in if 2 powi k \<le> x then k else k - 1)"

text \<open>
  Rounding to double precision: the multiple of the spacing \<open>u\<close> of the doubles around \<open>x\<close>
  that is nearest to \<open>x\<close>, a tie going to the even multiple. The spacing is
  \<open>2 ^ (e - 52)\<close> for a number of binary exponent \<open>e\<close>, and \<open>2 ^ - 1074\<close> below the normal
  range. A result of magnitude \<open>2 ^ 1024\<close> or more is out of range.
\<close>

definition round_double :: "rat \<Rightarrow> rat" where
  "round_double x =
     (if x = 0 then 0
      else let e = max (ilog2 \<bar>x\<bar>) (- 1022); u = 2 powi (e - 52)
           in of_int (py_round (x / u)) * u)"

text \<open>
  The float for the exact result \<open>q\<close> of an arithmetic operation whose sign is \<open>neg\<close>:
  an overflow gives an infinity, and a zero result keeps the sign.
\<close>

definition to_float :: "bool \<Rightarrow> rat \<Rightarrow> float" where
  "to_float neg q =
     (let y = round_double q
      in if 2 ^ 1024 \<le> \<bar>y\<bar> then signed_inf neg
         else if y = 0 then signed_zero neg
         else Finite y)"

text \<open>
  \<^verbatim>\<open>float(n)\<close> for an integer, also where an integer operand meets a float: the nearest
  double, or \<^verbatim>\<open>OverflowError\<close> when that is out of range.
\<close>

definition py_float :: "int \<Rightarrow> error + float" where
  "py_float n =
     (let y = round_double (of_int n)
      in if 2 ^ 1024 \<le> \<bar>y\<bar> then Inl OverflowError else Inr (Finite y))"

text \<open>
  \<^verbatim>\<open>a / b\<close> for two integers: the double nearest to the exact quotient.
\<close>

definition truediv :: "int \<Rightarrow> int \<Rightarrow> error + float" where
  "truediv a b =
     (if b = 0 then Inl ZeroDivisionError
      else if a = 0 then Inr (signed_zero (b < 0))
      else let y = round_double (of_int a / of_int b)
           in if 2 ^ 1024 \<le> \<bar>y\<bar> then Inl OverflowError
              else if y = 0 then Inr (signed_zero ((a < 0) \<noteq> (b < 0)))
              else Inr (Finite y))"

text \<open>\<^verbatim>\<open>x * y\<close> and \<^verbatim>\<open>x / y\<close> for two floats.\<close>

definition fmul :: "float \<Rightarrow> float \<Rightarrow> float" where
  "fmul x y =
     (if is_nan x \<or> is_nan y then NaN
      else if is_inf x \<or> is_inf y
      then (if is_zero x \<or> is_zero y then NaN else signed_inf (signbit x \<noteq> signbit y))
      else to_float (signbit x \<noteq> signbit y) (value_of x * value_of y))"

definition fdiv :: "float \<Rightarrow> float \<Rightarrow> error + float" where
  "fdiv x y =
     (if is_zero y then Inl ZeroDivisionError
      else Inr (if is_nan x \<or> is_nan y then NaN
                else if is_inf x
                then (if is_inf y then NaN else signed_inf (signbit x \<noteq> signbit y))
                else if is_inf y then signed_zero (signbit x \<noteq> signbit y)
                else to_float (signbit x \<noteq> signbit y) (value_of x / value_of y)))"

text \<open>
  \<^verbatim>\<open>x >= n\<close> and \<^verbatim>\<open>x <= n\<close> for a float and an integer: the values are compared
  exactly, and every comparison with NaN is false.
\<close>

fun float_ge :: "float \<Rightarrow> int \<Rightarrow> bool" where
  "float_ge (Finite v) n = (of_int n \<le> v)"
| "float_ge NegZero n = (n \<le> 0)"
| "float_ge PosInf n = True"
| "float_ge NegInf n = False"
| "float_ge NaN n = False"

fun float_le :: "float \<Rightarrow> int \<Rightarrow> bool" where
  "float_le (Finite v) n = (v \<le> of_int n)"
| "float_le NegZero n = (0 \<le> n)"
| "float_le PosInf n = False"
| "float_le NegInf n = True"
| "float_le NaN n = False"

text \<open>
  \<^verbatim>\<open>round(x)\<close> for a float: \<^verbatim>\<open>OverflowError\<close> for an infinity and
  \<^verbatim>\<open>ValueError\<close> for NaN.
\<close>

fun round_float :: "float \<Rightarrow> error + int" where
  "round_float (Finite v) = Inr (py_round v)"
| "round_float NegZero = Inr 0"
| "round_float PosInf = Inl OverflowError"
| "round_float NegInf = Inl OverflowError"
| "round_float NaN = Inl ValueError"

text \<open>
  \<^verbatim>\<open>str.isspace\<close> on one character, for the code points below 256: tab, line feed,
  vertical tab, form feed, carriage return, the separators 28 to 31, space, next line (133)
  and no-break space (160).
\<close>

definition isspace :: "char \<Rightarrow> bool" where
  "isspace c = ((of_char c :: nat) \<in> {9, 10, 11, 12, 13, 28, 29, 30, 31, 32, 133, 160})"

text \<open>
  \<^verbatim>\<open>s.split()\<close>: the maximal runs of non-whitespace characters. The first argument
  of \<open>split_from\<close> is the run being read, reversed.
\<close>

fun split_from :: "string \<Rightarrow> string \<Rightarrow> string list" where
  "split_from cur [] = (if cur = [] then [] else [rev cur])"
| "split_from cur (c # cs) =
     (if isspace c then (if cur = [] then split_from [] cs else rev cur # split_from [] cs)
      else split_from (c # cur) cs)"

definition py_split :: "string \<Rightarrow> string list" where
  "py_split s = split_from [] s"

text \<open>\<^verbatim>\<open>s.split(sep)\<close> for a one-character separator: never the empty list.\<close>

fun split_on :: "char \<Rightarrow> string \<Rightarrow> string list" where
  "split_on sep [] = [[]]"
| "split_on sep (c # cs) =
     (if c = sep then [] # split_on sep cs
      else (case split_on sep cs of [] \<Rightarrow> [[c]] | w # ws \<Rightarrow> (c # w) # ws))"

text \<open>\<^verbatim>\<open>sep.join(xs)\<close>.\<close>

fun join :: "string \<Rightarrow> string list \<Rightarrow> string" where
  "join sep [] = []"
| "join sep [x] = x"
| "join sep (x # y # ys) = x @ sep @ join sep (y # ys)"

text \<open>
  \<^verbatim>\<open>int(s)\<close> on a string without whitespace: an optional sign, then decimal digits,
  where single underscores may stand between digits. \<open>None\<close> is the \<^verbatim>\<open>ValueError\<close>.
  The second argument of \<open>digits_value\<close> says whether the previous character was a digit.
  (The interpreter's configurable limit on the number of digits is not modelled.)
\<close>

definition is_digit :: "char \<Rightarrow> bool" where
  "is_digit c = (c \<in> set ''0123456789'')"

definition digit_val :: "char \<Rightarrow> int" where
  "digit_val c = int (of_char c) - 48"

fun digits_value :: "int \<Rightarrow> bool \<Rightarrow> string \<Rightarrow> int option" where
  "digits_value acc prev [] = (if prev then Some acc else None)"
| "digits_value acc prev (c # cs) =
     (if is_digit c then digits_value (10 * acc + digit_val c) True cs
      else if c = CHR ''_'' \<and> prev then digits_value acc False cs
      else None)"

fun py_int :: "string \<Rightarrow> int option" where
  "py_int [] = None"
| "py_int (c # cs) =
     (if c = CHR ''-'' then map_option uminus (digits_value 0 False cs)
      else if c = CHR ''+'' then digits_value 0 False cs
      else digits_value 0 False (c # cs))"

text \<open>\<^verbatim>\<open>str(n)\<close> for an integer.\<close>

definition digit_char :: "nat \<Rightarrow> char" where
  "digit_char d = char_of (48 + d)"

fun str_nat :: "nat \<Rightarrow> string" where
  "str_nat n = (if n < 10 then [digit_char n] else str_nat (n div 10) @ [digit_char (n mod 10)])"

definition str_int :: "int \<Rightarrow> string" where
  "str_int i = (if i < 0 then CHR ''-'' # str_nat (nat (- i)) else str_nat (nat i))"

text \<open>
  \<^verbatim>\<open>format(x, ".pf")\<close> for a float: the exact value rounded to \<open>p\<close> fractional
  digits, a tie going to the even neighbour, with a minus sign for a negative value and for
  minus zero. No decimal point is written when \<open>p = 0\<close>.
\<close>

definition zfill :: "nat \<Rightarrow> string \<Rightarrow> string" where
  "zfill w s = replicate (w - length s) (CHR ''0'') @ s"

definition format_f :: "nat \<Rightarrow> rat \<Rightarrow> string" where
  "format_f p x =
     (let n = nat (py_round (\<bar>x\<bar> * 10 ^ p));
          body = str_nat (n div 10 ^ p) @ (if p = 0 then [] else CHR ''.'' # zfill p (str_nat (n mod 10 ^ p)))
      in if x < 0 then CHR ''-'' # body else body)"

fun format_float :: "nat \<Rightarrow> float \<Rightarrow> string" where
  "format_float p (Finite v) = format_f p v"
| "format_float p NegZero = CHR ''-'' # format_f p 0"
| "format_float p PosInf = ''inf''"
| "format_float p NegInf = ''-inf''"
| "format_float p NaN = ''nan''"

text \<open>Padding to a minimum field width: on the left for numbers, on the right for strings.\<close>

definition rjust :: "nat \<Rightarrow> string \<Rightarrow> string" where
  "rjust w s = replicate (w - length s) (CHR '' '') @ s"

definition ljust :: "nat \<Rightarrow> string \<Rightarrow> string" where
  "ljust w s = s @ replicate (w - length s) (CHR '' '')"

text \<open>
  A \<^verbatim>\<open>dict\<close> with string keys iterates in insertion order, and assigning to a key
  that is present keeps its place: an association list, with \<open>dict_set\<close> for
  \<^verbatim>\<open>d[k] = v\<close>.
\<close>

type_synonym dict = "(string \<times> int) list"

fun dict_set :: "string \<Rightarrow> int \<Rightarrow> dict \<Rightarrow> dict" where
  "dict_set k v [] = [(k, v)]"
| "dict_set k v ((k', v') # d) = (if k' = k then (k, v) # d else (k', v') # dict_set k v d)"

text \<open>
  \<^verbatim>\<open>sorted(d.items(), key=lambda x: x[1], reverse=True)\<close>. CPython sorts with
  \<^verbatim>\<open>reverse=True\<close> by reversing the list, sorting it stably in ascending order and
  reversing the result, so that equal keys keep their original order.
\<close>

definition sorted_reverse :: "dict \<Rightarrow> dict" where
  "sorted_reverse items = rev (sort_key snd (rev items))"

subsection \<open>percent_to_graph\<close>

text \<open>
  \<^verbatim>\<open>
  if not 0 <= percent <= 100:
      raise ValueError("Percent must be between 0 and 100")
  filled_chars = round(percent * total_chars / 100)
  graph = '=' * filled_chars + ' ' * (total_chars - filled_chars)
  return graph
  \<close>
  The product converts \<^verbatim>\<open>total_chars\<close> to a float and the quotient divides by the float
  100. A string times a negative count is the empty string, which is what \<open>nat\<close> gives.
\<close>

definition percent_to_graph :: "float \<Rightarrow> int \<Rightarrow> error + string" where
  "percent_to_graph percent total_chars =
     (if \<not> (float_ge percent 0 \<and> float_le percent 100) then Inl ValueError
      else (case py_float total_chars of
              Inl e \<Rightarrow> Inl e
            | Inr w \<Rightarrow>
               (case fdiv (fmul percent w) (Finite 100) of
                  Inl e \<Rightarrow> Inl e
                | Inr q \<Rightarrow>
                   (case round_float q of
                      Inl e \<Rightarrow> Inl e
                    | Inr filled_chars \<Rightarrow>
                        Inr (replicate (nat filled_chars) (CHR ''='')
                             @ replicate (nat (total_chars - filled_chars)) (CHR '' ''))))))"

subsection \<open>call_du_sub\<close>

text \<open>
  The finished child process, as \<^verbatim>\<open>Popen.communicate\<close> leaves it. Starting the process
  is a parameter \<open>popen\<close> of the model, from the argument vector to the finished process, or
  to \<^verbatim>\<open>OSError\<close> when the program cannot be started.
\<close>

record process =
  stdout :: string
  stderr :: string
  returncode :: int

definition du_argv :: "string \<Rightarrow> string list" where
  "du_argv location = [''du'', ''-d'', ''1'', location]"

text \<open>
  \<^verbatim>\<open>
  process = subprocess.Popen(['du', '-d', '1', location], stdout=PIPE, stderr=PIPE, ...)
  stdout, stderr = process.communicate()
  result = [line for line in stdout.split('\n') if line]
  return result
  \<close>
\<close>

definition call_du_sub :: "(string list \<Rightarrow> error + process) \<Rightarrow> string \<Rightarrow> error + string list" where
  "call_du_sub popen location =
     (case popen (du_argv location) of
        Inl e \<Rightarrow> Inl e
      | Inr process \<Rightarrow> Inr (filter (\<lambda>line. line \<noteq> []) (split_on (CHR 0x0A) (stdout process))))"

subsection \<open>create_dir_dict\<close>

text \<open>
  \<^verbatim>\<open>
  dir_dict = {}
  for line in alist:
      parts = line.split()
      if len(parts) < 2:
          continue
      size = int(parts[0])
      path = ' '.join(parts[1:])
      dir_dict[path] = size
  return dir_dict
  \<close>
\<close>

fun create_dir_dict_loop :: "string list \<Rightarrow> dict \<Rightarrow> error + dict" where
  "create_dir_dict_loop [] dir_dict = Inr dir_dict"
| "create_dir_dict_loop (line # alist) dir_dict =
     (let parts = py_split line
      in if length parts < 2 then create_dir_dict_loop alist dir_dict
         else (case py_int (hd parts) of
                 None \<Rightarrow> Inl ValueError
               | Some sz \<Rightarrow> create_dir_dict_loop alist (dict_set (join '' '' (tl parts)) sz dir_dict)))"

definition create_dir_dict :: "string list \<Rightarrow> error + dict" where
  "create_dir_dict alist = create_dir_dict_loop alist []"

subsection \<open>human_readable_size\<close>

text \<open>
  \<^verbatim>\<open>
  units = ['B', 'K', 'M', 'G', 'T', 'P']
  index = 0
  size = float(size_bytes)
  while size >= 1024 and index < len(units) - 1:
      size /= 1024
      index += 1
  return f"{size:.1f} {units[index]}"
  \<close>
\<close>

definition units :: "string list" where
  "units = [''B'', ''K'', ''M'', ''G'', ''T'', ''P'']"

function human_readable_loop :: "float \<Rightarrow> nat \<Rightarrow> error + float \<times> nat" where
  "human_readable_loop sz index =
     (if float_ge sz 1024 \<and> index < length units - 1
      then (case fdiv sz (Finite 1024) of
              Inl e \<Rightarrow> Inl e
            | Inr sz' \<Rightarrow> human_readable_loop sz' (index + 1))
      else Inr (sz, index))"
  by pat_completeness auto
termination
  by (relation "measure (\<lambda>(sz, index). length units - index)") auto

definition human_readable_size :: "int \<Rightarrow> error + string" where
  "human_readable_size size_bytes =
     (case py_float size_bytes of
        Inl e \<Rightarrow> Inl e
      | Inr sz0 \<Rightarrow>
         (case human_readable_loop sz0 0 of
            Inl e \<Rightarrow> Inl e
          | Inr (sz, index) \<Rightarrow> Inr (format_float 1 sz @ '' '' @ units ! index)))"

subsection \<open>print_directory_info\<close>

text \<open>
  \<^verbatim>\<open>
  sorted_dirs = sorted(dir_dict.items(), key=lambda x: x[1], reverse=True)
  for dir_path, size in sorted_dirs:
      if dir_path == target_dir:
          continue
      percent = (size / total_size) * 100
      bar = percent_to_graph(percent, bar_length)
      if human_readable: size_str = human_readable_size(size)
      else: size_str = str(size)
      print(f"{percent:3.0f} % [{bar}] {size_str:8} {dir_path}")
  if human_readable: total_str = human_readable_size(total_size)
  else: total_str = str(total_size)
  print(f"Total: {total_str}   {target_dir}")
  \<close>
  The lines printed are state: a run returns the lines printed so far and the exception
  that ended it, if any. \<open>entry_report\<close> is the body of the loop after the test for the
  target directory: the line it prints, or the exception it raises.
\<close>

type_synonym run = "string list \<times> error option"

definition size_string :: "bool \<Rightarrow> int \<Rightarrow> error + string" where
  "size_string human_readable sz =
     (if human_readable then human_readable_size sz else Inr (str_int sz))"

definition entry_line :: "float \<Rightarrow> string \<Rightarrow> string \<Rightarrow> string \<Rightarrow> string" where
  "entry_line percent bar size_str dir_path =
     rjust 3 (format_float 0 percent) @ '' % ['' @ bar @ ''] '' @ ljust 8 size_str @ '' '' @ dir_path"

definition entry_report :: "int \<Rightarrow> bool \<Rightarrow> int \<Rightarrow> string \<times> int \<Rightarrow> error + string" where
  "entry_report total_size human_readable bar_length entry =
     (case entry of (dir_path, sz) \<Rightarrow>
        (case truediv sz total_size of
           Inl e \<Rightarrow> Inl e
         | Inr q \<Rightarrow>
            (let percent = fmul q (Finite 100)
             in (case percent_to_graph percent bar_length of
                   Inl e \<Rightarrow> Inl e
                 | Inr bar \<Rightarrow>
                    (case size_string human_readable sz of
                       Inl e \<Rightarrow> Inl e
                     | Inr size_str \<Rightarrow> Inr (entry_line percent bar size_str dir_path))))))"

fun print_entries :: "dict \<Rightarrow> int \<Rightarrow> string \<Rightarrow> bool \<Rightarrow> int \<Rightarrow> string list \<Rightarrow> run" where
  "print_entries [] total_size target_dir human_readable bar_length out = (out, None)"
| "print_entries ((dir_path, sz) # sorted_dirs) total_size target_dir human_readable bar_length out =
     (if dir_path = target_dir
      then print_entries sorted_dirs total_size target_dir human_readable bar_length out
      else (case entry_report total_size human_readable bar_length (dir_path, sz) of
              Inl e \<Rightarrow> (out, Some e)
            | Inr line \<Rightarrow>
                print_entries sorted_dirs total_size target_dir human_readable bar_length
                  (out @ [line])))"

definition print_directory_info :: "dict \<Rightarrow> int \<Rightarrow> string \<Rightarrow> bool \<Rightarrow> int \<Rightarrow> run" where
  "print_directory_info dir_dict total_size target_dir human_readable bar_length =
     (case print_entries (sorted_reverse dir_dict) total_size target_dir human_readable bar_length [] of
        (out, Some e) \<Rightarrow> (out, Some e)
      | (out, None) \<Rightarrow>
         (case size_string human_readable total_size of
            Inl e \<Rightarrow> (out, Some e)
          | Inr total_str \<Rightarrow> (out @ [''Total: '' @ total_str @ ''   '' @ target_dir], None)))"

subsection \<open>main\<close>

text \<open>
  The parsed command line, and the two things the program asks of its environment:
  \<^verbatim>\<open>os.path.isdir\<close> and the child process.
\<close>

record args =
  target :: string
  human_readable :: bool
  length_arg :: int

record env =
  isdir :: "string \<Rightarrow> bool"
  popen :: "string list \<Rightarrow> error + process"

text \<open>
  \<^verbatim>\<open>
  if not os.path.isdir(args.target):
      print(f"Error: {args.target} is not a valid directory")
      sys.exit(1)
  du_output = call_du_sub(args.target)
  dir_dict = create_dir_dict(du_output)
  target_dir = args.target
  if target_dir not in dir_dict:
      last_line = du_output[-1]
      parts = last_line.split()
      target_dir = ' '.join(parts[1:])
  total_size = dir_dict[target_dir]
  print_directory_info(dir_dict, total_size, target_dir, args.human_readable, args.length)
  \<close>
\<close>

definition resolve_target :: "string \<Rightarrow> string list \<Rightarrow> dict \<Rightarrow> error + string" where
  "resolve_target target_dir du_output dir_dict =
     (if target_dir \<in> fst ` set dir_dict then Inr target_dir
      else if du_output = [] then Inl IndexError
      else Inr (join '' '' (tl (py_split (last du_output)))))"

definition main :: "env \<Rightarrow> args \<Rightarrow> run" where
  "main e a =
     (if \<not> isdir e (target a)
      then ([''Error: '' @ target a @ '' is not a valid directory''], Some (SystemExit 1))
      else (case call_du_sub (popen e) (target a) of
              Inl err \<Rightarrow> ([], Some err)
            | Inr du_output \<Rightarrow>
               (case create_dir_dict du_output of
                  Inl err \<Rightarrow> ([], Some err)
                | Inr dir_dict \<Rightarrow>
                   (case resolve_target (target a) du_output dir_dict of
                      Inl err \<Rightarrow> ([], Some err)
                    | Inr target_dir \<Rightarrow>
                       (case map_of dir_dict target_dir of
                          None \<Rightarrow> ([], Some KeyError)
                        | Some total_size \<Rightarrow>
                            print_directory_info dir_dict total_size target_dir
                              (human_readable a) (length_arg a))))))"

text \<open>
  The exit status of the interpreter: 0 after a normal return, the argument of
  \<^verbatim>\<open>sys.exit\<close>, and 1 after any other uncaught exception.
\<close>

fun exit_status :: "error option \<Rightarrow> int" where
  "exit_status None = 0"
| "exit_status (Some (SystemExit n)) = n"
| "exit_status (Some _) = 1"

section \<open>Properties\<close>

subsection \<open>Rounding to an integer\<close>

lemma py_round_nearest: "\<bar>of_int (py_round x) - x\<bar> \<le> 1 / 2"
  unfolding py_round_def Let_def by (auto simp: abs_if) linarith+

lemma floor_rat_numeral_divide [simp]:
  "\<lfloor>numeral a / numeral b :: rat\<rfloor> = numeral a div numeral b"
  using floor_divide_of_int_eq [of "numeral a" "numeral b", where ?'a = rat] by simp

lemma floor_rat_one_divide [simp]:
  "\<lfloor>1 / numeral b :: rat\<rfloor> = 1 div numeral b"
  using floor_divide_of_int_eq [of 1 "numeral b", where ?'a = rat] by simp

lemma py_round_of_int: "py_round (of_int n) = n"
  unfolding py_round_def Let_def by simp

lemma py_round_mono: "x \<le> y \<Longrightarrow> py_round x \<le> py_round y"
proof -
  assume xy: "x \<le> y"
  have fl: "\<lfloor>x\<rfloor> \<le> \<lfloor>y\<rfloor>" using xy by (rule floor_mono)
  show ?thesis
  proof (cases "\<lfloor>x\<rfloor> = \<lfloor>y\<rfloor>")
    case True
    then show ?thesis using xy unfolding py_round_def Let_def by auto
  next
    case False
    then have "\<lfloor>x\<rfloor> + 1 \<le> \<lfloor>y\<rfloor>" using fl by linarith
    moreover have "py_round x \<le> \<lfloor>x\<rfloor> + 1" unfolding py_round_def Let_def by auto
    moreover have "\<lfloor>y\<rfloor> \<le> py_round y" unfolding py_round_def Let_def by auto
    ultimately show ?thesis by linarith
  qed
qed

lemma py_round_half: "x = of_int n + 1 / 2 \<Longrightarrow> py_round x = (if even n then n else n + 1)"
proof -
  assume x: "x = of_int n + 1 / 2"
  have "\<lfloor>x\<rfloor> = n" unfolding x by linarith
  then show ?thesis unfolding py_round_def Let_def by (simp add: x)
qed

lemma py_round_0 [simp]: "py_round 0 = 0"
  using py_round_of_int [of 0] by simp

subsection \<open>Rounding to a double\<close>

declare bit_length.simps [simp del]

lemma bit_length_bounds: "0 < n \<Longrightarrow> 2 ^ (bit_length n - 1) \<le> n \<and> n < 2 ^ bit_length n"
proof (induction n rule: bit_length.induct)
  case (1 n)
  show ?case
  proof (cases "n div 2 = 0")
    case True
    then have "n = 1" using 1 by linarith
    then show ?thesis by (simp add: bit_length.simps)
  next
    case False
    then have "2 ^ (bit_length (n div 2) - 1) \<le> n div 2 \<and> n div 2 < 2 ^ bit_length (n div 2)"
      using 1 by simp
    moreover have bl: "bit_length n = Suc (bit_length (n div 2))"
      using 1 by (subst bit_length.simps) simp
    moreover have "0 < bit_length (n div 2)" using False by (subst bit_length.simps) simp
    then have "(2::nat) ^ bit_length (n div 2) = 2 * 2 ^ (bit_length (n div 2) - 1)"
      by (cases "bit_length (n div 2)") simp_all
    ultimately show ?thesis by simp linarith
  qed
qed

lemma ilog2_bounds:
  assumes "0 < x"
  shows "2 powi (ilog2 x) \<le> x" and "x < 2 powi (ilog2 x + 1)"
proof -
  obtain a b where q: "quotient_of x = (a, b)" by (cases "quotient_of x")
  have b: "0 < b" using q by (rule quotient_of_denom_pos)
  have x: "x = of_int a / of_int b" using q by (rule quotient_of_div)
  have a: "0 < a" using assms b unfolding x by (simp add: zero_less_divide_iff)
  define la where "la = bit_length (nat a)"
  define lb where "lb = bit_length (nat b)"
  define k where "k = int la - int lb"
  have A: "2 ^ (la - 1) \<le> nat a \<and> nat a < 2 ^ la"
    unfolding la_def using a by (intro bit_length_bounds) simp
  have B: "2 ^ (lb - 1) \<le> nat b \<and> nat b < 2 ^ lb"
    unfolding lb_def using b by (intro bit_length_bounds) simp
  have la: "0 < la" using A a by (cases la) auto
  have lb: "0 < lb" using B b by (cases lb) auto
  have A1: "(2::rat) ^ (la - 1) \<le> of_int a"
  proof -
    have "int (2 ^ (la - 1)) \<le> a" using A a by linarith
    then have "(of_int (int (2 ^ (la - 1))) :: rat) \<le> of_int a" by (simp only: of_int_le_iff)
    then show ?thesis by simp
  qed
  have A2: "(of_int a :: rat) < 2 ^ la"
  proof -
    have "a < int (2 ^ la)" using A a by linarith
    then have "(of_int a :: rat) < of_int (int (2 ^ la))" by (simp only: of_int_less_iff)
    then show ?thesis by simp
  qed
  have B1: "(2::rat) ^ (lb - 1) \<le> of_int b"
  proof -
    have "int (2 ^ (lb - 1)) \<le> b" using B b by linarith
    then have "(of_int (int (2 ^ (lb - 1))) :: rat) \<le> of_int b" by (simp only: of_int_le_iff)
    then show ?thesis by simp
  qed
  have B2: "(of_int b :: rat) < 2 ^ lb"
  proof -
    have "b < int (2 ^ lb)" using B b by linarith
    then have "(of_int b :: rat) < of_int (int (2 ^ lb))" by (simp only: of_int_less_iff)
    then show ?thesis by simp
  qed
  have bpos: "(0::rat) < of_int b" using b by simp
  have pk: "(2::rat) powi k = 2 ^ la / 2 ^ lb"
    unfolding k_def by (simp add: power_int_diff)
  have pk1: "(2::rat) powi (k + 1) = 2 ^ la / 2 ^ (lb - 1)"
  proof -
    have "k + 1 = int la - int (lb - 1)" using lb unfolding k_def by linarith
    then show ?thesis by (simp add: power_int_diff)
  qed
  have pk0: "(2::rat) powi (k - 1) = 2 ^ (la - 1) / 2 ^ lb"
  proof -
    have "k - 1 = int (la - 1) - int lb" using la unfolding k_def by linarith
    then show ?thesis by (simp add: power_int_diff)
  qed
  have up: "x < 2 powi (k + 1)"
  proof -
    have "of_int a / of_int b < (2::rat) ^ la / of_int b"
      using A2 bpos by (simp add: divide_strict_right_mono)
    also have "\<dots> \<le> 2 ^ la / 2 ^ (lb - 1)"
      using B1 by (intro frac_le) auto
    finally show ?thesis unfolding x pk1 .
  qed
  have lo: "2 powi (k - 1) \<le> x"
  proof -
    have "(2::rat) ^ (la - 1) / 2 ^ lb \<le> of_int a / 2 ^ lb"
      using A1 by (simp add: divide_right_mono)
    also have "\<dots> \<le> of_int a / of_int b"
      using B2 a bpos by (intro frac_le) auto
    finally show ?thesis unfolding x pk0 .
  qed
  have il: "ilog2 x = (if 2 powi k \<le> x then k else k - 1)"
    unfolding ilog2_def q by (simp add: Let_def k_def la_def lb_def)
  show "2 powi (ilog2 x) \<le> x" unfolding il using lo by simp
  show "x < 2 powi (ilog2 x + 1)" unfolding il using up by (simp add: not_le)
qed


lemma pow2_less_imp: "(2::rat) powi a < 2 powi b \<Longrightarrow> a < b"
proof (rule ccontr)
  assume l: "(2::rat) powi a < 2 powi b" and "\<not> a < b"
  then have "b \<le> a" by simp
  then have "(2::rat) powi b \<le> 2 powi a" by (intro power_int_increasing) auto
  then show False using l by linarith
qed

lemma pow2_split: "a \<le> b \<Longrightarrow> (2::rat) powi b = 2 powi a * 2 ^ nat (b - a)"
proof -
  assume ab: "a \<le> b"
  have "(2::rat) powi b = 2 powi (a + (b - a))" by simp
  also have "\<dots> = 2 powi a * 2 powi (b - a)" by (rule power_int_add) simp
  also have "(2::rat) powi (b - a) = 2 ^ nat (b - a)" using ab by (simp add: power_int_nonneg_exp)
  finally show ?thesis .
qed


lemma round_double_0 [simp]: "round_double 0 = 0"
  by (simp add: round_double_def)

lemma round_double_error: "\<bar>round_double x - x\<bar> \<le> (\<bar>x\<bar> + 1) / 2 ^ 53"
proof (cases "x = 0")
  case True
  then show ?thesis by simp
next
  case False
  define e where "e = ilog2 \<bar>x\<bar>"
  define e' where "e' = max e (- 1022)"
  define u :: rat where "u = 2 powi (e' - 52)"
  define M where "M = py_round (x / u)"
  have u: "0 < u" unfolding u_def by simp
  have r: "round_double x = of_int M * u"
    using False by (simp add: round_double_def Let_def M_def u_def e'_def e_def)
  have xpos: "0 < \<bar>x\<bar>" using False by simp
  have lo: "2 powi e \<le> \<bar>x\<bar>" unfolding e_def using xpos by (rule ilog2_bounds)
  have "\<bar>of_int M - x / u\<bar> \<le> 1 / 2" unfolding M_def by (rule py_round_nearest)
  then have "\<bar>of_int M - x / u\<bar> * u \<le> 1 / 2 * u" using u by (intro mult_right_mono) auto
  moreover have "\<bar>of_int M - x / u\<bar> * u = \<bar>of_int M * u - x\<bar>"
  proof -
    have "\<bar>of_int M - x / u\<bar> * u = \<bar>(of_int M - x / u) * u\<bar>" using u by (simp add: abs_mult)
    also have "(of_int M - x / u) * u = of_int M * u - x" using u by (simp add: field_simps)
    finally show ?thesis .
  qed
  ultimately have err: "\<bar>round_double x - x\<bar> \<le> u / 2" unfolding r by simp
  have "u / 2 \<le> (\<bar>x\<bar> + 1) / 2 ^ 53"
  proof (cases "- 1022 \<le> e")
    case True
    then have "e' = e" unfolding e'_def by simp
    then have "u = 2 powi e / 2 ^ 52" unfolding u_def by (simp add: power_int_diff)
    then have "u / 2 = 2 powi e / 2 ^ 53" by simp
    also have "\<dots> \<le> \<bar>x\<bar> / 2 ^ 53" using lo by (simp add: divide_right_mono)
    also have "\<dots> \<le> (\<bar>x\<bar> + 1) / 2 ^ 53" by (simp add: divide_right_mono)
    finally show ?thesis .
  next
    case False
    then have "e' = - 1022" unfolding e'_def by simp
    then have "u = 2 powi (- 1074)" unfolding u_def by simp
    also have "\<dots> \<le> 2 powi (- 52)" by (intro power_int_increasing) auto
    finally have "u \<le> 1 / 2 ^ 52" by (simp add: power_int_minus_divide)
    then have "u / 2 \<le> 1 / 2 ^ 53" by simp
    also have "\<dots> \<le> (\<bar>x\<bar> + 1) / 2 ^ 53" by (simp add: divide_right_mono)
    finally show ?thesis .
  qed
  then show ?thesis using err by linarith
qed

lemma round_double_nonneg: "0 \<le> x \<Longrightarrow> 0 \<le> round_double x"
proof -
  assume x: "0 \<le> x"
  have "0 \<le> py_round (x / u)" if "0 < u" for u
  proof -
    have "0 \<le> x / u" using x that by simp
    from py_round_mono [OF this] show ?thesis by simp
  qed
  then show ?thesis by (simp add: round_double_def Let_def)
qed

lemma round_double_nonpos: "x \<le> 0 \<Longrightarrow> round_double x \<le> 0"
proof -
  assume x: "x \<le> 0"
  have "py_round (x / u) \<le> 0" if "0 < u" for u
  proof -
    have "x / u \<le> 0" using x that by (simp add: divide_le_0_iff)
    from py_round_mono [OF this] show ?thesis by simp
  qed
  then show ?thesis by (simp add: round_double_def Let_def mult_le_0_iff)
qed

lemma round_double_exact:
  assumes m: "\<bar>m\<bar> < 2 ^ 53" and q: "- 1074 \<le> q"
  shows "round_double (of_int m * 2 powi q) = of_int m * 2 powi q"
proof (cases "m = 0")
  case True
  then show ?thesis by simp
next
  case False
  define x :: rat where "x = of_int m * 2 powi q"
  define e where "e = ilog2 \<bar>x\<bar>"
  define e' where "e' = max e (- 1022)"
  define u :: rat where "u = 2 powi (e' - 52)"
  have x0: "x \<noteq> 0" unfolding x_def using False by simp
  then have xpos: "0 < \<bar>x\<bar>" by simp
  have lo: "2 powi e \<le> \<bar>x\<bar>" unfolding e_def using xpos by (rule ilog2_bounds)
  have "\<bar>x\<bar> = of_int \<bar>m\<bar> * 2 powi q" unfolding x_def by (simp add: abs_mult)
  also have "\<dots> < of_int (2 ^ 53) * 2 powi q"
    using m by (intro mult_strict_right_mono) (simp_all only: of_int_less_iff zero_less_power_int zero_less_numeral)
  also have "\<dots> = 2 powi (q + 53)" by (simp add: power_int_add)
  finally have "(2::rat) powi e < 2 powi (q + 53)" using lo by linarith
  then have "e < q + 53" by (rule pow2_less_imp)
  then have le: "e' - 52 \<le> q" unfolding e'_def using q by simp
  define d where "d = nat (q - (e' - 52))"
  have pq: "(2::rat) powi q = u * 2 ^ d" unfolding u_def d_def using le by (rule pow2_split)
  have u: "0 < u" unfolding u_def by simp
  have "x / u = of_int (m * 2 ^ d)" unfolding x_def pq using u by simp
  then have "py_round (x / u) = m * 2 ^ d" by (simp only: py_round_of_int)
  then have "round_double x = of_int (m * 2 ^ d) * u"
    using x0 by (simp add: round_double_def Let_def u_def e'_def e_def)
  also have "\<dots> = x" unfolding x_def pq by simp
  finally show ?thesis unfolding x_def .
qed

lemma round_double_form:
  "\<exists>m q. \<bar>m\<bar> < 2 ^ 53 \<and> - 1074 \<le> q \<and> round_double x = of_int m * 2 powi q"
proof (cases "x = 0")
  case True
  have "\<bar>0::int\<bar> < 2 ^ 53 \<and> - 1074 \<le> (0::int) \<and> round_double x = of_int 0 * 2 powi 0"
    using True by simp
  then show ?thesis by blast
next
  case False
  define e where "e = ilog2 \<bar>x\<bar>"
  define e' where "e' = max e (- 1022)"
  define u :: rat where "u = 2 powi (e' - 52)"
  define M where "M = py_round (x / u)"
  have u: "0 < u" unfolding u_def by simp
  have r: "round_double x = of_int M * u"
    using False by (simp add: round_double_def Let_def M_def u_def e'_def e_def)
  have xpos: "0 < \<bar>x\<bar>" using False by simp
  have "\<bar>x\<bar> < 2 powi (e + 1)" unfolding e_def using xpos by (rule ilog2_bounds)
  also have "\<dots> \<le> 2 powi (e' + 1)" unfolding e'_def by (intro power_int_increasing) auto
  also have "\<dots> = u * 2 ^ 53"
  proof -
    have "(2::rat) powi (e' + 1) = 2 powi (e' - 52) * 2 ^ nat (e' + 1 - (e' - 52))"
      by (rule pow2_split) simp
    then show ?thesis by (simp add: u_def)
  qed
  finally have ax: "\<bar>x\<bar> < u * 2 ^ 53" .
  have "\<bar>x / u\<bar> < 2 ^ 53"
  proof -
    have "\<bar>x / u\<bar> = \<bar>x\<bar> / u" using u by simp
    also have "\<dots> < 2 ^ 53" using ax u by (simp add: field_simps)
    finally show ?thesis .
  qed
  then have b1: "x / u \<le> of_int (2 ^ 53)" and b2: "of_int (- (2 ^ 53)) \<le> x / u"
    unfolding of_int_minus of_int_power of_int_numeral by linarith+
  have M1: "M \<le> 2 ^ 53" using py_round_mono [OF b1] unfolding M_def by (simp only: py_round_of_int)
  have M2: "- (2 ^ 53) \<le> M" using py_round_mono [OF b2] unfolding M_def by (simp only: py_round_of_int)
  have q': "- 1074 \<le> e' - 52" unfolding e'_def by simp
  consider "\<bar>M\<bar> < 2 ^ 53" | "M = 2 ^ 53" | "M = - (2 ^ 53)" using M1 M2 by linarith
  then show ?thesis
  proof cases
    case 1
    then show ?thesis using q' r unfolding u_def by blast
  next
    case 2
    have "(2::rat) powi (e' - 51) = 2 powi (e' - 52) * 2 ^ nat (e' - 51 - (e' - 52))"
      by (rule pow2_split) simp
    then have "(2::rat) powi (e' - 51) = u * 2" by (simp add: u_def)
    then have "round_double x = of_int (2 ^ 52) * 2 powi (e' - 51)" unfolding r 2 by simp
    moreover have "\<bar>2 ^ 52 :: int\<bar> < 2 ^ 53" by simp
    moreover have "- 1074 \<le> e' - 51" using q' by simp
    ultimately show ?thesis by blast
  next
    case 3
    have "(2::rat) powi (e' - 51) = 2 powi (e' - 52) * 2 ^ nat (e' - 51 - (e' - 52))"
      by (rule pow2_split) simp
    then have "(2::rat) powi (e' - 51) = u * 2" by (simp add: u_def)
    then have "round_double x = of_int (- (2 ^ 52)) * 2 powi (e' - 51)" unfolding r 3 by simp
    moreover have "\<bar>- (2 ^ 52) :: int\<bar> < 2 ^ 53" by simp
    moreover have "- 1074 \<le> e' - 51" using q' by simp
    ultimately show ?thesis by blast
  qed
qed

lemma round_double_idem: "round_double (round_double x) = round_double x"
proof -
  obtain m q where "\<bar>m\<bar> < 2 ^ 53" "- 1074 \<le> q" "round_double x = of_int m * 2 powi q"
    using round_double_form by blast
  then show ?thesis using round_double_exact by simp
qed

lemma round_double_int: "\<bar>n\<bar> < 2 ^ 53 \<Longrightarrow> round_double (of_int n) = of_int n"
  using round_double_exact [of n 0] by simp

lemma round_double_dyadic:
  "\<bar>n\<bar> < 2 ^ 53 \<Longrightarrow> k \<le> 1074 \<Longrightarrow> round_double (of_int n / 2 ^ k) = of_int n / 2 ^ k"
  using round_double_exact [of n "- int k"] by (simp add: power_int_minus_divide)

lemma round_double_div_1024:
  assumes v: "round_double v = v" and big: "1024 \<le> \<bar>v\<bar>"
  shows "round_double (v / 1024) = v / 1024"
proof -
  obtain m q where m: "\<bar>m\<bar> < 2 ^ 53" and q: "- 1074 \<le> q" and f: "round_double v = of_int m * 2 powi q"
    using round_double_form by blast
  have vf: "v = of_int m * 2 powi q" using v f by simp
  have "- 1064 \<le> q"
  proof (rule ccontr)
    assume "\<not> - 1064 \<le> q"
    then have "q \<le> - 53" by simp
    then have "(2::rat) powi q \<le> 2 powi (- 53)" by (intro power_int_increasing) auto
    then have p: "(2::rat) powi q \<le> 1 / 2 ^ 53" by (simp add: power_int_minus_divide)
    have "\<bar>v\<bar> = of_int \<bar>m\<bar> * 2 powi q" unfolding vf by (simp add: abs_mult)
    also have "\<dots> \<le> of_int (2 ^ 53) * 2 powi q"
      using m by (intro mult_right_mono) (simp_all only: of_int_le_iff zero_le_power_int zero_le_numeral)
    also have "\<dots> \<le> of_int (2 ^ 53) * (1 / 2 ^ 53)" using p by (intro mult_left_mono) auto
    also have "\<dots> = 1" by simp
    finally show False using big by simp
  qed
  then have q': "- 1074 \<le> q - 10" by simp
  have "(2::rat) powi q = 2 powi (q - 10) * 2 ^ nat (q - (q - 10))" by (rule pow2_split) simp
  then have "(2::rat) powi q = 2 powi (q - 10) * 1024" by simp
  then have "v / 1024 = of_int m * 2 powi (q - 10)" unfolding vf by simp
  then show ?thesis using round_double_exact [OF m q'] by simp
qed

subsection \<open>The bar renderer\<close>

lemma py_round_near: "\<bar>x - of_int n\<bar> < 1 / 2 \<Longrightarrow> py_round x = n"
proof -
  assume a: "\<bar>x - of_int n\<bar> < 1 / 2"
  have "\<bar>of_int (py_round x) - x\<bar> \<le> 1 / 2" by (rule py_round_nearest)
  then have "\<bar>(of_int (py_round x) :: rat) - of_int n\<bar> < 1" using a by linarith
  then have "(of_int \<bar>py_round x - n\<bar> :: rat) < 1" by simp
  then have "\<bar>py_round x - n\<bar> < 1" by (simp only: of_int_less_1_iff)
  then show ?thesis by simp
qed

lemma small_double: "\<bar>x\<bar> \<le> 2 ^ 60 \<Longrightarrow> \<bar>round_double x\<bar> < 2 ^ 1024"
proof -
  assume a: "\<bar>x\<bar> \<le> 2 ^ 60"
  have "\<bar>round_double x - x\<bar> \<le> (\<bar>x\<bar> + 1) / 2 ^ 53" by (rule round_double_error)
  moreover have "(\<bar>x\<bar> + 1) / 2 ^ 53 \<le> (\<bar>x\<bar> + 1) / 1" by (intro divide_left_mono) auto
  ultimately have "\<bar>round_double x - x\<bar> \<le> (\<bar>x\<bar> + 1) / 1" by (rule order_trans)
  then have "\<bar>round_double x - x\<bar> \<le> \<bar>x\<bar> + 1" by simp
  then have "\<bar>round_double x\<bar> \<le> \<bar>x\<bar> + (\<bar>x\<bar> + 1)" by linarith
  also have "\<dots> \<le> 2 ^ 60 + (2 ^ 60 + 1)" using a by simp
  also have "\<dots> < (2::rat) ^ 1024" by simp
  finally show ?thesis .
qed

lemma py_float_small: "\<bar>n\<bar> < 2 ^ 53 \<Longrightarrow> py_float n = Inr (Finite (of_int n))"
proof -
  assume a: "\<bar>n\<bar> < 2 ^ 53"
  then have "(of_int \<bar>n\<bar> :: rat) < of_int (2 ^ 53)" by (simp only: of_int_less_iff)
  then have "\<bar>of_int n :: rat\<bar> \<le> 2 ^ 60" by simp
  then have "\<bar>round_double (of_int n)\<bar> < 2 ^ 1024" by (rule small_double)
  then show ?thesis using round_double_int [OF a] by (simp add: py_float_def Let_def)
qed

lemma to_float_plus:
  "\<bar>round_double q\<bar> < 2 ^ 1024 \<Longrightarrow> to_float False q = Finite (round_double q)"
  by (simp add: to_float_def Let_def signed_zero_def)

lemma count_list_bar:
  "count_list (replicate a (CHR ''='') @ replicate b (CHR '' '')) (CHR ''='') = a"
  by (induction a) (auto simp: count_list_append)

lemma filled_chars_value:
  assumes p0: "0 \<le> percent" and p100: "percent \<le> 100" and w0: "0 \<le> total_chars"
    and wb: "total_chars \<le> 2 ^ 46"
  shows "percent_to_graph (Finite percent) total_chars =
           Inr (replicate (nat (py_round (round_double (round_double (percent * of_int total_chars) / 100)))) (CHR ''='')
                @ replicate (nat (total_chars - py_round (round_double (round_double (percent * of_int total_chars) / 100)))) (CHR '' ''))"
    and "0 \<le> py_round (round_double (round_double (percent * of_int total_chars) / 100))"
    and "py_round (round_double (round_double (percent * of_int total_chars) / 100)) \<le> total_chars"
    and "\<bar>of_int (py_round (round_double (round_double (percent * of_int total_chars) / 100)))
           - percent * of_int total_chars / 100\<bar> \<le> 1 / 2 + (of_int total_chars + 1) / 2 ^ 51"
proof -
  define W :: rat where "W = of_int total_chars"
  define x where "x = percent * W"
  define y where "y = round_double x"
  define z where "z = round_double (y / 100)"
  have W0: "0 \<le> W" unfolding W_def using w0 by simp
  have "(of_int total_chars :: rat) \<le> of_int (2 ^ 46)" using wb by (simp only: of_int_le_iff)
  then have Wb: "W \<le> 2 ^ 46" unfolding W_def by simp
  have x0: "0 \<le> x" unfolding x_def using p0 W0 by simp
  have xb: "x \<le> 100 * W" unfolding x_def using p100 W0 by (intro mult_right_mono) auto
  have y0: "0 \<le> y" unfolding y_def using x0 by (rule round_double_nonneg)
  have z0: "0 \<le> z" unfolding z_def using y0 by (intro round_double_nonneg) simp
  have e1: "\<bar>y - x\<bar> \<le> (\<bar>x\<bar> + 1) / 2 ^ 53" unfolding y_def by (rule round_double_error)
  have e2: "\<bar>z - y / 100\<bar> \<le> (\<bar>y / 100\<bar> + 1) / 2 ^ 53" unfolding z_def by (rule round_double_error)
  have e1a: "\<bar>y - x\<bar> \<le> (x + 1) / 9007199254740992" using e1 x0 by simp
  have e2a: "\<bar>z - y / 100\<bar> \<le> (y / 100 + 1) / 9007199254740992" using e2 y0 by simp
  have e1l: "x - (x + 1) / 9007199254740992 \<le> y" and e1u: "y \<le> x + (x + 1) / 9007199254740992"
    using e1a by (simp_all only: abs_diff_le_iff)
  have e2l: "y / 100 - (y / 100 + 1) / 9007199254740992 \<le> z"
    and e2u: "z \<le> y / 100 + (y / 100 + 1) / 9007199254740992"
    using e2a by (simp_all only: abs_diff_le_iff)
  have Wb': "W \<le> 70368744177664" using Wb by simp
  have zl: "x / 100 - (W + 1) / 2251799813685248 \<le> z"
    using e1l e1u e2l x0 xb W0 by (simp add: field_simps)
  have zu: "z \<le> x / 100 + (W + 1) / 2251799813685248"
    using e1l e1u e2u x0 xb W0 by (simp add: field_simps)
  have zx: "\<bar>z - x / 100\<bar> \<le> (W + 1) / 2251799813685248"
    using zl zu by (simp only: abs_diff_le_iff)
  have zW: "z \<le> W + 1 / 4" using zu xb Wb' W0 by (simp add: field_simps)
  have tw: "\<bar>total_chars\<bar> < 2 ^ 53" using w0 wb by simp
  have pf: "py_float total_chars = Inr (Finite W)" unfolding W_def using tw by (rule py_float_small)
  have "x \<le> 1152921504606846976" using xb Wb' by linarith
  then have xs: "\<bar>x\<bar> \<le> 2 ^ 60" using x0 by simp
  have "y / 100 \<le> 1152921504606846976" using y0 e1u x0 xb Wb' by (simp add: field_simps)
  then have ys: "\<bar>y / 100\<bar> \<le> 2 ^ 60" using y0 by simp
  have fm: "fmul (Finite percent) (Finite W) = Finite y"
    using p0 W0 small_double [OF xs] by (simp add: fmul_def to_float_plus x_def y_def not_less)
  have fd: "fdiv (Finite y) (Finite 100) = Inr (Finite z)"
    using y0 small_double [OF ys] by (simp add: fdiv_def to_float_plus z_def not_less)
  show "percent_to_graph (Finite percent) total_chars =
           Inr (replicate (nat (py_round (round_double (round_double (percent * of_int total_chars) / 100)))) (CHR ''='')
                @ replicate (nat (total_chars - py_round (round_double (round_double (percent * of_int total_chars) / 100)))) (CHR '' ''))"
    using p0 p100 by (simp add: percent_to_graph_def pf fm fd) (simp add: z_def y_def x_def W_def)
  have "py_round 0 \<le> py_round z" using z0 by (rule py_round_mono)
  then show "0 \<le> py_round (round_double (round_double (percent * of_int total_chars) / 100))"
    by (simp add: z_def y_def x_def W_def)
  have "\<bar>(W + 1 / 4) - of_int total_chars\<bar> < 1 / 2" unfolding W_def by simp
  then have "py_round (W + 1 / 4) = total_chars" by (rule py_round_near)
  moreover have "py_round z \<le> py_round (W + 1 / 4)" using zW by (rule py_round_mono)
  ultimately show "py_round (round_double (round_double (percent * of_int total_chars) / 100)) \<le> total_chars"
    by (simp add: z_def y_def x_def W_def)
  have "\<bar>of_int (py_round z) - z\<bar> \<le> 1 / 2" by (rule py_round_nearest)
  then have "\<bar>of_int (py_round z) - x / 100\<bar> \<le> 1 / 2 + (W + 1) / 2251799813685248"
    using zl zu by (simp only: abs_diff_le_iff) linarith
  then show "\<bar>of_int (py_round (round_double (round_double (percent * of_int total_chars) / 100)))
           - percent * of_int total_chars / 100\<bar> \<le> 1 / 2 + (of_int total_chars + 1) / 2 ^ 51"
    by (simp add: z_def y_def x_def W_def)
qed


lemma round_double_numeral:
  "(numeral k :: int) < 2 ^ 53 \<Longrightarrow> round_double (numeral k) = numeral k"
  using round_double_int [of "numeral k"] by simp


lemma round_double_3_2: "round_double (3 / 2) = 3 / 2"
  using round_double_dyadic [of 3 1] by simp





lemma percent_to_graph_errors:
  "percent_to_graph percent w = Inl e \<Longrightarrow> e = ValueError \<or> e = OverflowError"
  by (cases percent)
     (auto simp: percent_to_graph_def py_float_def fmul_def fdiv_def to_float_def Let_def
        signed_zero_def signed_inf_def split: if_splits sum.splits)

lemma percent_to_graph_finite_error:
  "percent_to_graph (Finite percent) w = Inl ValueError \<Longrightarrow> percent < 0 \<or> 100 < percent"
  by (auto simp: percent_to_graph_def py_float_def fmul_def fdiv_def to_float_def Let_def
        signed_zero_def signed_inf_def split: if_splits sum.splits)

text \<open>
  C8. Whatever the width, \<open>percent_to_graph\<close> raises \<^verbatim>\<open>ValueError\<close> (the program's range
  error) exactly when the percentage is below 0 or above 100; so it does at -1 and at 101,
  and at an infinity or NaN. It raises nothing else, but for \<^verbatim>\<open>OverflowError\<close> when
  the width is too large for a float: for a width from 0 to \<open>2 ^ 46\<close> it raises exactly
  when the percentage is out of range.
\<close>

theorem percent_to_graph_range:
  "((percent_to_graph (Finite percent) w = Inl ValueError) = (percent < 0 \<or> 100 < percent))
   \<and> percent_to_graph (Finite (- 1)) w = Inl ValueError
   \<and> percent_to_graph (Finite 101) w = Inl ValueError
   \<and> ((\<exists>e. percent_to_graph (Finite percent) w = Inl e \<and> e \<noteq> OverflowError) = (percent < 0 \<or> 100 < percent))
   \<and> (0 \<le> w \<and> w \<le> 2 ^ 46
        \<longrightarrow> (\<exists>e. percent_to_graph (Finite percent) w = Inl e) = (percent < 0 \<or> 100 < percent))
   \<and> percent_to_graph PosInf w = Inl ValueError
   \<and> percent_to_graph NegInf w = Inl ValueError
   \<and> percent_to_graph NaN w = Inl ValueError"
proof -
  have a: "(percent_to_graph (Finite percent) w = Inl ValueError) = (percent < 0 \<or> 100 < percent)"
    using percent_to_graph_finite_error [of percent w] by (auto simp: percent_to_graph_def)
  have b: "(\<exists>e. percent_to_graph (Finite percent) w = Inl e \<and> e \<noteq> OverflowError) = (percent < 0 \<or> 100 < percent)"
    using percent_to_graph_errors [of "Finite percent" w] a by auto
  have c: "(\<exists>e. percent_to_graph (Finite percent) w = Inl e) = (percent < 0 \<or> 100 < percent)"
    if w: "0 \<le> w \<and> w \<le> 2 ^ 46"
  proof (cases "percent < 0 \<or> 100 < percent")
    case True
    then show ?thesis using a by auto
  next
    case False
    then have "0 \<le> percent" and "percent \<le> 100" by auto
    from filled_chars_value(1) [OF this] w show ?thesis using False by simp
  qed
  show ?thesis using a b c by (simp add: percent_to_graph_def)
qed

theorem percent_to_graph_range_witness:
  "((percent_to_graph (Finite 50) 4 = Inl ValueError) = ((50::rat) < 0 \<or> (100::rat) < 50))
   \<and> percent_to_graph (Finite (- 1)) 4 = Inl ValueError
   \<and> percent_to_graph (Finite 101) 4 = Inl ValueError
   \<and> (0::int) \<le> 4 \<and> (4::int) \<le> 2 ^ 46
   \<and> (\<exists>e. percent_to_graph (Finite 101) 4 = Inl e)
   \<and> \<not> (\<exists>e. percent_to_graph (Finite 50) 4 = Inl e)"
  using percent_to_graph_range [of 50 4] percent_to_graph_range [of 101 4] by simp

text \<open>
  C10. When \<open>percent * total_chars / 100\<close> lies exactly halfway between the integers \<open>n\<close> and
  \<open>n + 1\<close>, for a width up to \<open>2 ^ 46\<close>, the product and the quotient are computed without
  rounding error and the bar has the even one of the two as its number of \<open>=\<close>: none for
  12.5 percent of width 4, and two for 37.5 percent.
\<close>

theorem percent_to_graph_half_even:
  assumes "0 \<le> percent" and "percent \<le> 100" and "0 \<le> total_chars" and "total_chars \<le> 2 ^ 46"
    and "percent * of_int total_chars / 100 = of_int n + 1 / 2"
  shows "(\<exists>graph. percent_to_graph (Finite percent) total_chars = Inr graph
           \<and> int (count_list graph (CHR ''='')) = (if even n then n else n + 1)
           \<and> even (count_list graph (CHR ''='')))
         \<and> percent_to_graph (Finite (25 / 2)) 4 = Inr ''    ''
         \<and> percent_to_graph (Finite (75 / 2)) 4 = Inr ''==  ''"
proof -
  define filled where
    "filled = py_round (round_double (round_double (percent * of_int total_chars) / 100))"
  define graph where
    "graph = replicate (nat filled) (CHR ''='') @ replicate (nat (total_chars - filled)) (CHR '' '')"
  note v = filled_chars_value [OF assms(1-4)]
  have prod: "percent * of_int total_chars = of_int (100 * n + 50)" using assms(5) by (simp add: field_simps)
  have "percent * of_int total_chars \<le> 100 * of_int total_chars"
    using assms(2,3) by (intro mult_right_mono) auto
  also have "\<dots> \<le> 100 * of_int (2 ^ 46)" using assms(4) by (simp only: mult_le_cancel_left_pos of_int_le_iff zero_less_numeral)
  finally have "(of_int (100 * n + 50) :: rat) \<le> of_int (100 * 2 ^ 46)" unfolding prod by simp
  then have nb: "100 * n + 50 \<le> 100 * 2 ^ 46" by (simp only: of_int_le_iff)
  have "(0::rat) \<le> percent * of_int total_chars" using assms(1,3) by simp
  then have "(of_int 0 :: rat) \<le> of_int (100 * n + 50)" unfolding prod by simp
  then have n0: "0 \<le> 100 * n + 50" by (simp only: of_int_le_iff)
  have r1: "round_double (percent * of_int total_chars) = of_int (100 * n + 50)"
    unfolding prod using nb n0 by (intro round_double_int) simp
  have eq: "(of_int (100 * n + 50) :: rat) / 100 = of_int (2 * n + 1) / 2 ^ 1" by simp
  have d: "round_double (of_int (2 * n + 1) / 2 ^ 1) = of_int (2 * n + 1) / 2 ^ 1"
    using nb n0 by (intro round_double_dyadic) simp_all
  have val: "(of_int (2 * n + 1) :: rat) / 2 ^ 1 = of_int n + 1 / 2" by (simp add: field_simps)
  have "round_double (of_int (100 * n + 50) / 100) = round_double (of_int (2 * n + 1) / 2 ^ 1)"
    by (simp only: eq)
  also have "\<dots> = of_int (2 * n + 1) / 2 ^ 1" by (rule d)
  also have "\<dots> = of_int n + 1 / 2" by (rule val)
  finally have r2: "round_double (of_int (100 * n + 50) / 100) = of_int n + 1 / 2" .
  have half: "filled = (if even n then n else n + 1)"
    unfolding filled_def r1 r2 by (rule py_round_half) simp
  have f0: "0 \<le> filled" unfolding filled_def by (rule v(2))
  have run: "percent_to_graph (Finite percent) total_chars = Inr graph"
    unfolding graph_def filled_def by (rule v(1))
  have "int (count_list graph (CHR ''='')) = filled"
    unfolding graph_def count_list_bar using f0 by simp
  then have cnt: "int (count_list graph (CHR ''='')) = (if even n then n else n + 1)"
    using half by simp
  have "even (if even n then n else n + 1)" by simp
  then have "even (int (count_list graph (CHR ''='')))" using cnt by simp
  then have ev: "even (count_list graph (CHR ''=''))" by simp
  have gen: "\<exists>graph. percent_to_graph (Finite percent) total_chars = Inr graph
           \<and> int (count_list graph (CHR ''='')) = (if even n then n else n + 1)
           \<and> even (count_list graph (CHR ''=''))"
    using run cnt ev by blast
  have h: "round_double (1 / 2) = 1 / 2" using round_double_dyadic [of 1 1] by simp
  have ex1: "percent_to_graph (Finite (25 / 2)) 4 = Inr ''    ''"
    using filled_chars_value(1) [of "25 / 2" 4]
    by (simp add: round_double_numeral h py_round_def eval_nat_numeral)
  have ex2: "percent_to_graph (Finite (75 / 2)) 4 = Inr ''==  ''"
    using filled_chars_value(1) [of "75 / 2" 4]
    by (simp add: round_double_numeral round_double_3_2 py_round_def eval_nat_numeral)
  show ?thesis using gen ex1 ex2 by (intro conjI)
qed

theorem percent_to_graph_half_even_witness:
  "(0::rat) \<le> 25 / 2 \<and> (25 / 2 :: rat) \<le> 100 \<and> (0::int) \<le> 4 \<and> (4::int) \<le> 2 ^ 46
   \<and> (25 / 2 :: rat) * of_int 4 / 100 = of_int 0 + 1 / 2
   \<and> percent_to_graph (Finite (25 / 2)) 4 = Inr ''    ''"
  using percent_to_graph_half_even [of "25 / 2" 4 0] by simp

subsection \<open>Evaluation on concrete inputs\<close>

lemma digit_char_simps:
  "digit_char 0 = CHR ''0''" "digit_char 1 = CHR ''1''" "digit_char (Suc 0) = CHR ''1''"
  "digit_char 2 = CHR ''2''"
  "digit_char 3 = CHR ''3''" "digit_char 4 = CHR ''4''" "digit_char 5 = CHR ''5''"
  "digit_char 6 = CHR ''6''" "digit_char 7 = CHR ''7''" "digit_char 8 = CHR ''8''"
  "digit_char 9 = CHR ''9''"
  by code_simp+

lemma replicate_numeral: "replicate (numeral k) x = x # replicate (pred_numeral k) x"
  by (simp add: numeral_eq_Suc)

lemmas parse_eval = create_dir_dict_def py_split_def isspace_def is_digit_def digit_val_def

subsection \<open>The parser\<close>

lemma dict_set_subset: "set (dict_set k v d) \<subseteq> insert (k, v) (set d)"
  by (induction d) (auto split: if_splits)

lemma create_dir_dict_loop_bad:
  assumes "line \<in> set alist" and "2 \<le> length (py_split line)"
    and "py_int (hd (py_split line)) = None"
  shows "create_dir_dict_loop alist d = Inl ValueError"
  using assms
proof (induction alist arbitrary: d)
  case Nil
  then show ?case by simp
next
  case (Cons l ls)
  show ?case
  proof (cases "l = line")
    case True
    then show ?thesis using Cons.prems by (simp add: Let_def)
  next
    case False
    then have "line \<in> set ls" using Cons.prems by simp
    then have IH: "create_dir_dict_loop ls d' = Inl ValueError" for d'
      using Cons.IH Cons.prems by blast
    show ?thesis by (simp add: Let_def IH split: option.splits)
  qed
qed

lemma create_dir_dict_loop_sizes:
  assumes "create_dir_dict_loop alist d0 = Inr d" and "(path, sz) \<in> set d"
  shows "(path, sz) \<in> set d0
       \<or> (\<exists>line \<in> set alist. 2 \<le> length (py_split line)
             \<and> py_int (hd (py_split line)) = Some sz
             \<and> path = join '' '' (tl (py_split line)))"
  using assms
proof (induction alist arbitrary: d0)
  case Nil
  then show ?case by simp
next
  case (Cons l ls)
  show ?case
  proof (cases "length (py_split l) < 2")
    case True
    then have "create_dir_dict_loop ls d0 = Inr d" using Cons.prems(1) by (simp add: Let_def)
    from Cons.IH [OF this Cons.prems(2)] show ?thesis by auto
  next
    case False
    then obtain v where v: "py_int (hd (py_split l)) = Some v"
      and run: "create_dir_dict_loop ls (dict_set (join '' '' (tl (py_split l))) v d0) = Inr d"
      using Cons.prems(1) by (auto simp: Let_def split: option.splits)
    from Cons.IH [OF run Cons.prems(2)] show ?thesis
    proof
      assume "(path, sz) \<in> set (dict_set (join '' '' (tl (py_split l))) v d0)"
      then have "(path, sz) = (join '' '' (tl (py_split l)), v) \<or> (path, sz) \<in> set d0"
        using dict_set_subset by fastforce
      then show ?thesis using v False by auto
    next
      assume "\<exists>line\<in>set ls. 2 \<le> length (py_split line)
             \<and> py_int (hd (py_split line)) = Some sz
             \<and> path = join '' '' (tl (py_split line))"
      then show ?thesis by auto
    qed
  qed
qed

text \<open>
  C7. When some line of the probe's output has at least two whitespace-separated tokens and
  a first token that \<^verbatim>\<open>int\<close> rejects, \<open>create_dir_dict\<close> raises \<^verbatim>\<open>ValueError\<close>
  (the program's parse error) whatever the other lines are: the line is not skipped. In
  \<open>main\<close> the exception is not caught, so the run prints no report and ends with exit
  status 1.
\<close>

theorem create_dir_dict_non_numeric:
  assumes "line \<in> set alist" and "2 \<le> length (py_split line)"
    and "py_int (hd (py_split line)) = None"
  shows "create_dir_dict alist = Inl ValueError
       \<and> (isdir e (target a) \<and> call_du_sub (popen e) (target a) = Inr alist
            \<longrightarrow> main e a = ([], Some ValueError) \<and> exit_status (snd (main e a)) = 1)"
proof -
  have bad: "create_dir_dict alist = Inl ValueError"
    unfolding create_dir_dict_def using assms by (rule create_dir_dict_loop_bad)
  then show ?thesis by (simp add: main_def)
qed

theorem create_dir_dict_non_numeric_witness:
  "''abc /a'' \<in> set [''100 /b'', ''abc /a'']
   \<and> 2 \<le> length (py_split ''abc /a'')
   \<and> py_int (hd (py_split ''abc /a'')) = None
   \<and> create_dir_dict [''100 /b'', ''abc /a''] = Inl ValueError
   \<and> isdir \<lparr>isdir = (\<lambda>_. True), popen = (\<lambda>_. Inr \<lparr>stdout = ''100 /b'' @ [CHR 0x0A] @ ''abc /a'' @ [CHR 0x0A], stderr = [], returncode = 0\<rparr>)\<rparr> ''/a''
   \<and> main \<lparr>isdir = (\<lambda>_. True), popen = (\<lambda>_. Inr \<lparr>stdout = ''100 /b'' @ [CHR 0x0A] @ ''abc /a'' @ [CHR 0x0A], stderr = [], returncode = 0\<rparr>)\<rparr>
        \<lparr>target = ''/a'', human_readable = False, length_arg = 20\<rparr> = ([], Some ValueError)"
  using create_dir_dict_non_numeric [of "''abc /a''" "[''100 /b'', ''abc /a'']"
      "\<lparr>isdir = (\<lambda>_. True), popen = (\<lambda>_. Inr \<lparr>stdout = ''100 /b'' @ [CHR 0x0A] @ ''abc /a'' @ [CHR 0x0A], stderr = [], returncode = 0\<rparr>)\<rparr>"
      "\<lparr>target = ''/a'', human_readable = False, length_arg = 20\<rparr>"]
  by (simp add: py_split_def isspace_def is_digit_def call_du_sub_def)

lemma digits_value_nonneg:
  "0 \<le> acc \<Longrightarrow> digits_value acc prev cs = Some v \<Longrightarrow> 0 \<le> v"
proof (induction cs arbitrary: acc prev)
  case Nil
  then show ?case by (simp split: if_splits)
next
  case (Cons c cs)
  show ?case
  proof (cases "is_digit c")
    case True
    then have "0 \<le> digit_val c" by (auto simp: is_digit_def digit_val_def)
    then have "0 \<le> 10 * acc + digit_val c" using Cons.prems(1) by simp
    moreover have "digits_value (10 * acc + digit_val c) True cs = Some v"
      using Cons.prems(2) True by simp
    ultimately show ?thesis by (rule Cons.IH)
  next
    case False
    then have "digits_value acc False cs = Some v"
      using Cons.prems(2) by (simp split: if_splits)
    with Cons.prems(1) show ?thesis by (rule Cons.IH)
  qed
qed

lemma py_int_negative:
  assumes "py_int s = Some v" and "v < 0"
  shows "\<exists>ds. s = CHR ''-'' # ds"
proof (cases s)
  case Nil
  then show ?thesis using assms by simp
next
  case (Cons c cs)
  show ?thesis
  proof (cases "c = CHR ''-''")
    case True
    then show ?thesis using Cons by simp
  next
    case False
    then have "digits_value 0 False cs = Some v \<or> digits_value 0 False (c # cs) = Some v"
      using assms(1) Cons by (simp split: if_splits)
    then have "0 \<le> v" using digits_value_nonneg [OF order_refl] by blast
    then show ?thesis using assms(2) by simp
  qed
qed

lemma create_dir_dict_loop_append:
  "create_dir_dict_loop (xs @ ys) d =
     (case create_dir_dict_loop xs d of Inl e \<Rightarrow> Inl e | Inr d' \<Rightarrow> create_dir_dict_loop ys d')"
  by (induction xs arbitrary: d) (auto simp: Let_def split: option.splits)

lemma map_of_dict_set: "map_of (dict_set k v d) k = Some v"
  by (induction d) auto

lemma create_dir_dict_provenance:
  assumes "create_dir_dict alist = Inr d" and "(path, sz) \<in> set d"
  shows "\<exists>line \<in> set alist. 2 \<le> length (py_split line)
           \<and> py_int (hd (py_split line)) = Some sz
           \<and> path = join '' '' (tl (py_split line))"
  using create_dir_dict_loop_sizes [of alist "[]" d path sz] assms
  by (simp add: create_dir_dict_def)

text \<open>
  C9. The claim that a size token denoting a negative integer is rejected fails: the line
  \<^verbatim>\<open>-5 /a\<close> is parsed and -5 is stored.
\<close>

theorem create_dir_dict_negative_counterexample:
  "create_dir_dict [''-5 /a''] = Inr [(''/a'', - 5)]"
  by (simp add: parse_eval)

text \<open>
  C9, as amended. Every size stored in the snapshot is the integer that \<^verbatim>\<open>int\<close> gives
  for the first token of some input line with at least two tokens, under the path made of
  that line's remaining tokens joined by single spaces; it is negative only if that token
  begins with a minus sign. So when no first token begins with a minus sign, every stored
  size is non-negative. A negative size token is not rejected: a line appended to an input
  that parses is stored under its path with the value of its size token, whatever its sign.
\<close>

theorem create_dir_dict_sizes:
  "(create_dir_dict alist = Inr d \<and> (path, sz) \<in> set d
      \<longrightarrow> (\<exists>line \<in> set alist. 2 \<le> length (py_split line)
             \<and> py_int (hd (py_split line)) = Some sz
             \<and> path = join '' '' (tl (py_split line))
             \<and> (sz < 0 \<longrightarrow> (\<exists>ds. hd (py_split line) = CHR ''-'' # ds))))
   \<and> (create_dir_dict alist' = Inr d'
        \<and> (\<forall>line \<in> set alist'. \<not> (\<exists>ds. hd (py_split line) = CHR ''-'' # ds))
      \<longrightarrow> (\<forall>entry \<in> set d'. 0 \<le> snd entry))
   \<and> (create_dir_dict alist0 = Inr d0 \<and> 2 \<le> length (py_split line0)
        \<and> py_int (hd (py_split line0)) = Some v
      \<longrightarrow> create_dir_dict (alist0 @ [line0]) = Inr (dict_set (join '' '' (tl (py_split line0))) v d0)
          \<and> map_of (dict_set (join '' '' (tl (py_split line0))) v d0) (join '' '' (tl (py_split line0)))
              = Some v)"
proof -
  have prov: "\<exists>line \<in> set xs. 2 \<le> length (py_split line)
             \<and> py_int (hd (py_split line)) = Some s
             \<and> p = join '' '' (tl (py_split line))
             \<and> (s < 0 \<longrightarrow> (\<exists>ds. hd (py_split line) = CHR ''-'' # ds))"
    if h1: "create_dir_dict xs = Inr dd" and h2: "(p, s) \<in> set dd" for xs dd p s
  proof -
    obtain line where l: "line \<in> set xs" "2 \<le> length (py_split line)"
        "py_int (hd (py_split line)) = Some s" "p = join '' '' (tl (py_split line))"
      using create_dir_dict_provenance [OF h1 h2] by blast
    have "s < 0 \<longrightarrow> (\<exists>ds. hd (py_split line) = CHR ''-'' # ds)"
      using py_int_negative [OF l(3)] by blast
    then show ?thesis using l by blast
  qed
  have a: "create_dir_dict alist = Inr d \<and> (path, sz) \<in> set d
      \<longrightarrow> (\<exists>line \<in> set alist. 2 \<le> length (py_split line)
             \<and> py_int (hd (py_split line)) = Some sz
             \<and> path = join '' '' (tl (py_split line))
             \<and> (sz < 0 \<longrightarrow> (\<exists>ds. hd (py_split line) = CHR ''-'' # ds)))"
    using prov by blast
  have b: "create_dir_dict alist' = Inr d'
        \<and> (\<forall>line \<in> set alist'. \<not> (\<exists>ds. hd (py_split line) = CHR ''-'' # ds))
      \<longrightarrow> (\<forall>entry \<in> set d'. 0 \<le> snd entry)"
  proof (intro impI ballI)
    fix entry
    assume h: "create_dir_dict alist' = Inr d'
        \<and> (\<forall>line \<in> set alist'. \<not> (\<exists>ds. hd (py_split line) = CHR ''-'' # ds))"
      and e: "entry \<in> set d'"
    have "(fst entry, snd entry) \<in> set d'" using e by simp
    from prov [OF _ this] h show "0 \<le> snd entry" by (meson not_le)
  qed
  have c: "create_dir_dict alist0 = Inr d0 \<and> 2 \<le> length (py_split line0)
        \<and> py_int (hd (py_split line0)) = Some v
      \<longrightarrow> create_dir_dict (alist0 @ [line0]) = Inr (dict_set (join '' '' (tl (py_split line0))) v d0)
          \<and> map_of (dict_set (join '' '' (tl (py_split line0))) v d0) (join '' '' (tl (py_split line0)))
              = Some v"
    by (simp add: create_dir_dict_def create_dir_dict_loop_append Let_def map_of_dict_set)
  show ?thesis using a b c by (intro conjI)
qed

theorem create_dir_dict_sizes_witness:
  "create_dir_dict [''-5 /a''] = Inr [(''/a'', - 5)]
   \<and> (''/a'', - 5) \<in> set [(''/a'', - 5 :: int)]
   \<and> 2 \<le> length (py_split ''-5 /a'')
   \<and> py_int (hd (py_split ''-5 /a'')) = Some (- 5)
   \<and> ''/a'' = join '' '' (tl (py_split ''-5 /a''))
   \<and> hd (py_split ''-5 /a'') = CHR ''-'' # ''5''
   \<and> create_dir_dict [''3 /a''] = Inr [(''/a'', 3)]
   \<and> hd (py_split ''3 /a'') = ''3''
   \<and> create_dir_dict ([''3 /a''] @ [''-5 /a'']) = Inr [(''/a'', - 5)]
   \<and> map_of [(''/a'', - 5 :: int)] ''/a'' = Some (- 5)"
  using create_dir_dict_sizes [of "[''-5 /a'']" "[(''/a'', - 5)]" "''/a''" "- 5"
      "[''3 /a'']" "[(''/a'', 3)]" "[''3 /a'']" "[(''/a'', 3)]" "''-5 /a''" "- 5"]
  by (simp add: parse_eval)

end
